theory Spec2Isabelle
  imports Complex_Main
begin

section \<open>The eigenvalue method of Silver and Chan (1991): splitwavepy.eigval\<close>

text \<open>
  The embedding follows \<^verbatim>\<open>splitwavepy/eigval/eigval.py\<close> and
  \<^verbatim>\<open>splitwavepy/eigval/eigenM.py\<close>. Samples and eigenvalues are real numbers: the
  rounding of IEEE doubles is not modelled, the special values that numpy produces where a
  real result does not exist (a division by zero) are.
\<close>

subsection \<open>numpy scalars: reals with infinities and not-a-number\<close>

datatype fval = Fin real | PInf | NInf | NaN

fun is_finite :: "fval \<Rightarrow> bool" where
  "is_finite (Fin _) = True"
| "is_finite _ = False"

fun fneg :: "fval \<Rightarrow> fval" where
  "fneg (Fin a) = Fin (- a)"
| "fneg PInf = NInf"
| "fneg NInf = PInf"
| "fneg NaN = NaN"

fun fadd :: "fval \<Rightarrow> fval \<Rightarrow> fval" where
  "fadd (Fin a) (Fin b) = Fin (a + b)"
| "fadd NaN _ = NaN"
| "fadd _ NaN = NaN"
| "fadd PInf NInf = NaN"
| "fadd NInf PInf = NaN"
| "fadd PInf _ = PInf"
| "fadd _ PInf = PInf"
| "fadd NInf _ = NInf"
| "fadd _ NInf = NInf"

definition fsub :: "fval \<Rightarrow> fval \<Rightarrow> fval" where
  "fsub a b = fadd a (fneg b)"

text \<open>An infinity times a number takes the sign of the product; times zero it is NaN.\<close>

definition signed_inf :: "bool \<Rightarrow> real \<Rightarrow> fval" where
  "signed_inf pos b =
     (if b = 0 then NaN else if (0 < b) = pos then PInf else NInf)"

fun fmul :: "fval \<Rightarrow> fval \<Rightarrow> fval" where
  "fmul (Fin a) (Fin b) = Fin (a * b)"
| "fmul NaN _ = NaN"
| "fmul _ NaN = NaN"
| "fmul PInf (Fin b) = signed_inf True b"
| "fmul NInf (Fin b) = signed_inf False b"
| "fmul (Fin a) PInf = signed_inf True a"
| "fmul (Fin a) NInf = signed_inf False a"
| "fmul PInf PInf = PInf"
| "fmul NInf NInf = PInf"
| "fmul PInf NInf = NInf"
| "fmul NInf PInf = NInf"

text \<open>
  numpy's true division of doubles: a nonzero number over zero is an infinity, zero over
  zero is NaN (with a RuntimeWarning, no exception). The sign of a zero is not modelled:
  the divisor zero counts as positive.
\<close>

definition np_div :: "real \<Rightarrow> real \<Rightarrow> fval" where
  "np_div a b =
     (if b = 0 then (if a = 0 then NaN else if 0 < a then PInf else NInf)
      else Fin (a / b))"


text \<open>The comparison \<^verbatim>\<open>a > b\<close> of doubles: false as soon as one side is NaN.\<close>

fun fgt :: "fval \<Rightarrow> fval \<Rightarrow> bool" where
  "fgt (Fin a) (Fin b) = (b < a)"
| "fgt NaN _ = False"
| "fgt _ NaN = False"
| "fgt PInf PInf = False"
| "fgt PInf _ = True"
| "fgt _ PInf = False"
| "fgt NInf _ = False"
| "fgt _ NInf = True"

subsection \<open>Errors\<close>

text \<open>
  The exceptions a call can end with. \<open>CoreError\<close> stands for whatever an operation of
  \<^verbatim>\<open>splitwavepy.core\<close> raises (that module is not part of the sources at hand).
\<close>

datatype error = ValueError | IndexError | LinAlgError | CoreError

definition bind :: "error + 'a \<Rightarrow> ('a \<Rightarrow> error + 'b) \<Rightarrow> error + 'b" where
  "bind m f = (case m of Inl e \<Rightarrow> Inl e | Inr v \<Rightarrow> f v)"

type_synonym surface = "real list list"

subsection \<open>ftest: the confidence threshold on lambda2\<close>

text \<open>
  \<^verbatim>\<open>lam2.min()\<close>: the minimum over all cells of a two-dimensional array; numpy raises
  ValueError on an array without cells.
\<close>

definition surface_min :: "surface \<Rightarrow> error + real" where
  "surface_min s = (case concat s of [] \<Rightarrow> Inl ValueError | c # cs \<Rightarrow> Inr (fold min cs c))"

text \<open>
  \<^verbatim>\<open>scipy.stats.f.ppf(q, 2, dfd)\<close>, the quantile function of the F distribution with
  two numerator degrees of freedom. For that numerator the distribution function is
  \<open>1 - (dfd / (dfd + 2 x)) powr (dfd / 2)\<close>, so the quantile has a closed form. scipy
  answers NaN for arguments outside the domain and infinity at \<open>q = 1\<close>.
\<close>

definition f_ppf :: "real \<Rightarrow> real \<Rightarrow> fval" where
  "f_ppf q dfd =
     (if dfd \<le> 0 \<or> q < 0 \<or> 1 < q then NaN
      else if q = 1 then PInf
      else Fin (dfd / 2 * ((1 - q) powr (- 2 / dfd) - 1)))"

text \<open>
  \<^verbatim>\<open>
  def ftest(lam2,ndf,alpha=0.05):
      lam2min = lam2.min()
      k = 2 # two parameters, phi and dt.
      F = stats.f.ppf(1-alpha,k,ndf)
      lam2alpha = lam2min * ( 1 + (k/(ndf-k)) * F)
      return lam2alpha
  \<close>
  \<open>ndf\<close> is the double that \<open>eigval.ndf\<close> returned, so \<open>k/(ndf-k)\<close> is numpy's division.
\<close>

definition ftest :: "surface \<Rightarrow> real \<Rightarrow> real \<Rightarrow> error + fval" where
  "ftest lam2 ndf alpha =
     bind (surface_min lam2) (\<lambda>lam2min.
       let k = 2;
           F = f_ppf (1 - alpha) ndf;
           lam2alpha = fmul (Fin lam2min) (fadd (Fin 1) (fmul (np_div k (ndf - k)) F))
       in Inr lam2alpha)"

subsection \<open>The collaborators: windows and the core operations\<close>

text \<open>
  \<^verbatim>\<open>Window(nsamps,offset,tukey=None)\<close>: the class lives in \<^verbatim>\<open>splitwavepy.core.window\<close>,
  which is not among the sources; the record has the constructor's three arguments.
\<close>

record window =
  nsamps :: int
  offset :: int
  tukey :: "real option"

type_synonym trace = "real list"

text \<open>
  \<^verbatim>\<open>core.rotate\<close>, \<^verbatim>\<open>core.lag\<close>, \<^verbatim>\<open>core.unsplit\<close> and \<^verbatim>\<open>core.chop\<close> are taken as
  parameters: any functions from their arguments to a new pair of traces or an exception.
  \<^verbatim>\<open>chop\<close> is called with two traces by the grid search and with one by \<^verbatim>\<open>ndf\<close>.
\<close>

record core =
  core_rotate :: "trace \<Rightarrow> trace \<Rightarrow> real \<Rightarrow> error + trace \<times> trace"
  core_lag :: "trace \<Rightarrow> trace \<Rightarrow> int \<Rightarrow> error + trace \<times> trace"
  core_unsplit :: "trace \<Rightarrow> trace \<Rightarrow> real \<Rightarrow> int \<Rightarrow> error + trace \<times> trace"
  core_chop :: "trace \<Rightarrow> trace \<Rightarrow> window \<Rightarrow> error + trace \<times> trace"
  core_chop1 :: "trace \<Rightarrow> window \<Rightarrow> error + trace"

subsection \<open>eigvalcov\<close>





subsection \<open>grideigval\<close>

text \<open>The keyword arguments; \<open>None\<close> is a key that is not in \<^verbatim>\<open>kwargs\<close>.\<close>

record kwargs =
  kw_lags :: "int list option"
  kw_degs :: "real list option"
  kw_window :: "window option"
  kw_rcvcorr :: "(real \<times> int) option"
  kw_srccorr :: "(real \<times> int) option"

text \<open>\<^verbatim>\<open>int(v)\<close> on a float: truncation towards zero.\<close>

definition py_int :: "real \<Rightarrow> int" where
  "py_int v = (if 0 \<le> v then \<lfloor>v\<rfloor> else \<lceil>v\<rceil>)"

text \<open>\<^verbatim>\<open>np.linspace(start,stop,num)\<close> for \<open>num > 1\<close>.\<close>

definition linspace :: "real \<Rightarrow> real \<Rightarrow> nat \<Rightarrow> real list" where
  "linspace start stop num =
     map (\<lambda>i. start + real i * ((stop - start) / real (num - 1))) [0..<num]"

text \<open>\<^verbatim>\<open>np.rint\<close>: to the nearest integer, a tie to the even neighbour.\<close>

definition rint :: "real \<Rightarrow> int" where
  "rint v =
     (let f = \<lfloor>v\<rfloor>; d = v - of_int f
      in if d < 1/2 then f else if 1/2 < d then f + 1 else if even f then f else f + 1)"

text \<open>\<^verbatim>\<open>np.unique\<close>: the sorted distinct values.\<close>

definition np_unique :: "int list \<Rightarrow> int list" where
  "np_unique xs = remdups (sort xs)"

text \<open>\<^verbatim>\<open>np.arange(start,stop,step)\<close> on integers, for a positive step.\<close>

definition np_arange :: "int \<Rightarrow> int \<Rightarrow> int \<Rightarrow> int list" where
  "np_arange start stop step =
     map (\<lambda>i. start + int i * step) [0..<nat ((stop - start + step - 1) div step)]"

text \<open>
  The default search, from the number \<open>n\<close> of samples of \<open>x\<close>:
  \<^verbatim>\<open>
        maxlag = int(x.size / 10)
        maxlag = maxlag if maxlag%2==0 else maxlag + 1
        lags = 2 * np.rint(np.linspace(0,0.5*maxlag,30))
        kwargs['lags'] = np.unique(lags).astype(int)
        ...
        stepang = 3
        kwargs['degs'] = np.arange(-90,90,stepang)
        ...
        nsamps = int(x.size/2)
        nsamps = nsamps if nsamps%2==1 else nsamps + 1
        offset = 0
        kwargs['window'] = Window(nsamps,offset,tukey=None)
  \<close>
\<close>

definition default_lags :: "nat \<Rightarrow> int list" where
  "default_lags n =
     (let maxlag = py_int (real n / 10);
          maxlag = (if maxlag mod 2 = 0 then maxlag else maxlag + 1);
          lags = map (\<lambda>v. 2 * rint v) (linspace 0 (0.5 * real_of_int maxlag) 30)
      in np_unique lags)"

text \<open>The value of \<^verbatim>\<open>maxlag\<close> after the first two lines of the default search.\<close>

definition default_maxlag :: "nat \<Rightarrow> int" where
  "default_maxlag n =
     (let maxlag = py_int (real n / 10)
      in if maxlag mod 2 = 0 then maxlag else maxlag + 1)"

text \<open>
  The default delays as the specification words them, for comparison with the code:
  \<open>{2 * round (0.5 * k) : k in 0..30 steps linear to N/10 samples}\<close>, deduplicated.
\<close>

definition spec_default_lags :: "nat \<Rightarrow> int list" where
  "spec_default_lags n =
     np_unique (map (\<lambda>k. 2 * rint (0.5 * k)) (linspace 0 (real n / 10) 30))"

definition default_degs :: "real list" where
  "default_degs = (let stepang = 3 in map real_of_int (np_arange (- 90) 90 stepang))"

definition default_window :: "nat \<Rightarrow> window" where
  "default_window n =
     (let ns = py_int (real n / 2);
          ns = (if ns mod 2 = 1 then ns else ns + 1);
          off = 0
      in \<lparr>nsamps = ns, offset = off, tukey = None\<rparr>)"

text \<open>The three \<^verbatim>\<open>if ... not in kwargs\<close> blocks.\<close>

definition resolve_lags :: "trace \<Rightarrow> kwargs \<Rightarrow> int list" where
  "resolve_lags x kw = (case kw_lags kw of None \<Rightarrow> default_lags (length x) | Some ls \<Rightarrow> ls)"

definition resolve_degs :: "kwargs \<Rightarrow> real list" where
  "resolve_degs kw = (case kw_degs kw of None \<Rightarrow> default_degs | Some ds \<Rightarrow> ds)"

definition resolve_window :: "trace \<Rightarrow> kwargs \<Rightarrow> window" where
  "resolve_window x kw =
     (case kw_window kw of None \<Rightarrow> default_window (length x) | Some w \<Rightarrow> w)"















subsection \<open>An instance of the core operations\<close>

text \<open>
  Modelled from the spec: \<^verbatim>\<open>core.rotate\<close>, \<^verbatim>\<open>core.lag\<close>, \<^verbatim>\<open>core.unsplit\<close> and
  \<^verbatim>\<open>core.chop\<close> of the module \<^verbatim>\<open>splitwavepy.core\<close>, which is not among the sources.
  The interface section of the specification describes them (rotate by an angle; shift
  the two channels against each other by the delay; truncate to the window bounds;
  unsplit is rotate, then the negative lag), and \<^verbatim>\<open>testing/core_tests.py\<close> fixes what
  \<^verbatim>\<open>lag\<close> returns. The general results below hold for every core; this instance serves
  where a concrete one is needed.
\<close>

definition rotate_xy :: "trace \<Rightarrow> trace \<Rightarrow> real \<Rightarrow> error + trace \<times> trace" where
  "rotate_xy x y degrees =
     (if length x \<noteq> length y then Inl CoreError
      else let ang = degrees * pi / 180
           in Inr (map2 (\<lambda>u v. cos ang * u - sin ang * v) x y,
                   map2 (\<lambda>u v. sin ang * u + cos ang * v) x y))"

definition lag_xy :: "trace \<Rightarrow> trace \<Rightarrow> int \<Rightarrow> error + trace \<times> trace" where
  "lag_xy x y n =
     (if n = 0 then Inr (x, y)
      else if 0 < n then Inr (drop (nat n) x, take (length y - nat n) y)
      else Inr (take (length x - nat (- n)) x, drop (nat (- n)) y))"

definition unsplit_xy :: "trace \<Rightarrow> trace \<Rightarrow> real \<Rightarrow> int \<Rightarrow> error + trace \<times> trace" where
  "unsplit_xy x y fast l = bind (rotate_xy x y fast) (\<lambda>(tx, ty). lag_xy tx ty (- l))"

text \<open>
  The window sits around the middle sample, moved by the offset; a window that leaves the
  trace is an error.
\<close>

definition chop1 :: "trace \<Rightarrow> window \<Rightarrow> error + trace" where
  "chop1 x w =
     (let centre = int (length x) div 2 + offset w;
          hw = nsamps w div 2;
          t0 = centre - hw;
          t1 = centre + hw
      in if t0 < 0 \<or> int (length x) \<le> t1 \<or> nsamps w < 1 then Inl CoreError
         else Inr (take (nat (t1 - t0 + 1)) (drop (nat t0) x)))"

definition chop_xy :: "trace \<Rightarrow> trace \<Rightarrow> window \<Rightarrow> error + trace \<times> trace" where
  "chop_xy x y w = bind (chop1 x w) (\<lambda>cx. bind (chop1 y w) (\<lambda>cy. Inr (cx, cy)))"

definition spec_core :: core where
  "spec_core = \<lparr>core_rotate = rotate_xy, core_lag = lag_xy, core_unsplit = unsplit_xy,
                 core_chop = chop_xy, core_chop1 = chop1\<rparr>"

subsection \<open>EigenM: the attributes derived from the surfaces\<close>

type_synonym fsurface = "fval list list"

text \<open>\<^verbatim>\<open>self.lam1/self.lam2\<close>, cell by cell.\<close>

definition ratio :: "surface \<Rightarrow> surface \<Rightarrow> fsurface" where
  "ratio lam1 lam2 = map2 (map2 np_div) lam1 lam2"

text \<open>
  Modelled from the spec: \<^verbatim>\<open>core.max_idx\<close> (module \<^verbatim>\<open>splitwavepy.core\<close> is not among
  the sources). The specification has it return the grid index maximizing the values,
  the first occurrence in row-major scan order: a scan that keeps the first cell and
  replaces it whenever a later cell compares greater. No cell compares greater than a
  NaN and a NaN compares greater than no cell. An array without cells has no maximum.
\<close>

fun argmax_scan :: "nat \<Rightarrow> fval \<Rightarrow> nat \<Rightarrow> fval list \<Rightarrow> nat" where
  "argmax_scan best bv k [] = best"
| "argmax_scan best bv k (v # vs) =
     (if fgt v bv then argmax_scan k v (Suc k) vs else argmax_scan best bv (Suc k) vs)"

definition argmax :: "fval list \<Rightarrow> error + nat" where
  "argmax vs = (case vs of [] \<Rightarrow> Inl ValueError | v # vs' \<Rightarrow> Inr (argmax_scan 0 v 1 vs'))"

definition ncols :: "'a list list \<Rightarrow> nat" where
  "ncols a = (case a of [] \<Rightarrow> 0 | r # _ \<Rightarrow> length r)"

definition max_idx :: "fsurface \<Rightarrow> error + nat \<times> nat" where
  "max_idx vals =
     bind (argmax (concat vals)) (\<lambda>k. Inr (k div ncols vals, k mod ncols vals))"


text \<open>\<^verbatim>\<open>np.sum\<close> of doubles.\<close>

definition fsum :: "fval list \<Rightarrow> fval" where
  "fsum vs = foldr fadd vs (Fin 0)"


definition lagprofile :: "fsurface \<Rightarrow> fval list" where
  "lagprofile vals = map fsum vals"





text \<open>
  \<^verbatim>\<open>np.max\<close> of doubles: a NaN anywhere makes the result NaN; ValueError on an array
  without cells.
\<close>

definition fmax :: "fval \<Rightarrow> fval \<Rightarrow> fval" where
  "fmax a b = (if a = NaN \<or> b = NaN then NaN else if fgt b a then b else a)"

definition np_max :: "fval list \<Rightarrow> error + fval" where
  "np_max vs = (case vs of [] \<Rightarrow> Inl ValueError | v # vs' \<Rightarrow> Inr (fold fmax vs' v))"

text \<open>\<^verbatim>\<open>self.snr = np.max((self.lam1-self.lam2)/(2*self.lam2))\<close>\<close>

definition snr :: "surface \<Rightarrow> surface \<Rightarrow> error + fval" where
  "snr lam1 lam2 =
     np_max (concat (map2 (map2 (\<lambda>l1 l2. np_div (l1 - l2) (2 * l2))) lam1 lam2))"

subsection \<open>ndf: the number of degrees of freedom\<close>

text \<open>
  \<^verbatim>\<open>np.fft.fft\<close>: the discrete Fourier transform, bin \<open>k\<close> being the sum of
  \<open>y[n] * exp(-2 pi i k n / N)\<close>; numpy raises ValueError on an empty array.
\<close>

definition dft :: "trace \<Rightarrow> nat \<Rightarrow> complex" where
  "dft y k = (\<Sum>n<length y. of_real (y ! n) * cis (- 2 * pi * real k * real n / real (length y)))"

definition np_fft :: "trace \<Rightarrow> error + complex list" where
  "np_fft y = (if y = [] then Inl ValueError else Inr (map (dft y) [0..<length y]))"

text \<open>\<^verbatim>\<open>a = np.ones(Y.size); a[0] = a[-1] = 0.5\<close>\<close>

definition ndf_weights :: "nat \<Rightarrow> real list" where
  "ndf_weights n = (replicate n 1)[0 := 1/2, n - 1 := 1/2]"

text \<open>
  \<^verbatim>\<open>
  def ndf(y,window=None,detrend=False):
      if detrend is True:
          y = signal.detrend(y)
      if window is not None:
          y = core.chop(y,window=window)
      Y = np.fft.fft(y)
      amp = np.absolute(Y)
      a = np.ones(Y.size)
      a[0] = a[-1] = 0.5
      E2 = np.sum( a * amp**2)
      E4 = (np.sum( (4 * a**2 / 3) * amp**4))
      ndf = 2 * ( 2 * E2**2 / E4 - 1 )
      return ndf
  \<close>
  \<^verbatim>\<open>scipy.signal.detrend\<close> is a parameter. The sums are finite numbers; the division
  is numpy's.
\<close>

definition ndf ::
  "core \<Rightarrow> (trace \<Rightarrow> trace) \<Rightarrow> trace \<Rightarrow> window option \<Rightarrow> bool \<Rightarrow> error + fval" where
  "ndf c signal_detrend y win detrend =
     (let y = (if detrend then signal_detrend y else y)
      in bind (case win of None \<Rightarrow> Inr y | Some w \<Rightarrow> core_chop1 c y w) (\<lambda>y.
         bind (np_fft y) (\<lambda>Y.
           let amp = map cmod Y;
               a = ndf_weights (length Y);
               E2 = sum_list (map2 (\<lambda>a v. a * v\<^sup>2) a amp);
               E4 = sum_list (map2 (\<lambda>a v. (4 * a\<^sup>2 / 3) * v ^ 4) a amp)
           in Inr (fmul (Fin 2) (fsub (np_div (2 * E2\<^sup>2) E4) (Fin 1))))))"

text \<open>The weight of bin \<open>k\<close> among \<open>n\<close> bins: one half for the first and the last bin.\<close>

definition endpoint_weight :: "nat \<Rightarrow> nat \<Rightarrow> real" where
  "endpoint_weight n k = (if k = 0 \<or> k = n - 1 then 1/2 else 1)"

definition spectrum_E2 :: "trace \<Rightarrow> real" where
  "spectrum_E2 y = (\<Sum>k<length y. endpoint_weight (length y) k * (cmod (dft y k))\<^sup>2)"

definition spectrum_E4 :: "trace \<Rightarrow> real" where
  "spectrum_E4 y =
     (\<Sum>k<length y. (4 * (endpoint_weight (length y) k)\<^sup>2 / 3) * (cmod (dft y k)) ^ 4)"

subsection \<open>EigenM.__init__: the trace pair in memory\<close>






section \<open>Properties\<close>

subsection \<open>ftest\<close>

lemma surface_min_single: "surface_min [[c]] = Inr c"
  by (simp add: surface_min_def)

lemma f_ppf_finite:
  assumes "0 < dfd" "0 < alpha" "alpha \<le> 1"
  shows "f_ppf (1 - alpha) dfd = Fin (dfd / 2 * (alpha powr (- 2 / dfd) - 1))"
  using assms by (simp add: f_ppf_def)

text \<open>
  C5, as the claim states it, fails: with one degree of freedom (\<open>ndf = 1 \<le> 2\<close>) and the
  one-cell surface \<open>[[1]]\<close> the threshold at \<open>alpha = 1/20\<close> is the finite number \<open>-398\<close>,
  returned without an error.
\<close>

theorem ftest_ndf_one_finite_counterexample:
  "ftest [[1]] 1 (1/20) = Inr (Fin (- 398))"
proof -
  have "(1/20::real) powr (- 2) = 400"
    by (simp add: powr_minus divide_simps)
  then have "f_ppf (1 - 1/20) 1 = Fin (399 / 2)"
    by (simp add: f_ppf_def)
  then show ?thesis
    by (simp add: ftest_def bind_def surface_min_single np_div_def)
qed

text \<open>
  C5, amended: nothing in \<open>ftest\<close> checks \<open>ndf\<close>. At \<open>ndf = 2\<close> the factor \<open>k/(ndf-k)\<close> is a
  division by zero and the threshold is not finite; for \<open>ndf \<le> 0\<close> the quantile is NaN
  and so is the threshold; for \<open>0 < ndf < 2\<close> (and \<open>0 < alpha \<le> 1\<close>) a finite threshold
  \<open>lam2min * (1 + 2 / (ndf - 2) * F)\<close> comes back, with
  \<open>F = ndf / 2 * (alpha powr (- 2 / ndf) - 1)\<close>.
\<close>

theorem ftest_small_ndf:
  assumes "surface_min lam2 = Inr lam2min"
  shows "(dof = 2 \<or> dof \<le> 0 \<longrightarrow> (\<exists>v. ftest lam2 dof alpha = Inr v \<and> \<not> is_finite v)) \<and>
         (0 < dof \<and> dof < 2 \<and> 0 < alpha \<and> alpha \<le> 1 \<longrightarrow>
            ftest lam2 dof alpha =
              Inr (Fin (lam2min *
                (1 + 2 / (dof - 2) * (dof / 2 * (alpha powr (- 2 / dof) - 1))))))"
proof (intro conjI impI)
  assume small: "dof = 2 \<or> dof \<le> 0"
  show "\<exists>v. ftest lam2 dof alpha = Inr v \<and> \<not> is_finite v"
  proof (cases "dof = 2")
    case True
    show ?thesis
    proof (cases "f_ppf (1 - alpha) dof")
      case (Fin F)
      then show ?thesis using assms True
        by (simp add: ftest_def bind_def np_div_def signed_inf_def)
    qed (use assms True in \<open>simp_all add: ftest_def bind_def np_div_def signed_inf_def\<close>)
  next
    case False
    with small have "dof \<le> 0" by simp
    then have "f_ppf (1 - alpha) dof = NaN" by (simp add: f_ppf_def)
    then show ?thesis using assms \<open>dof \<le> 0\<close>
      by (simp add: ftest_def bind_def np_div_def)
  qed
next
  assume "0 < dof \<and> dof < 2 \<and> 0 < alpha \<and> alpha \<le> 1"
  then show "ftest lam2 dof alpha =
          Inr (Fin (lam2min * (1 + 2 / (dof - 2) * (dof / 2 * (alpha powr (- 2 / dof) - 1)))))"
    using assms f_ppf_finite [of dof alpha]
    by (simp add: ftest_def bind_def np_div_def)
qed

theorem ftest_small_ndf_witness:
  "surface_min [[1]] = Inr 1 \<and>
   (\<exists>v. ftest [[1]] 2 (1/20) = Inr v \<and> \<not> is_finite v) \<and>
   ftest [[1]] 1 (1/20) =
     Inr (Fin (1 * (1 + 2 / (1 - 2) * (1 / 2 * ((1/20) powr (- 2 / 1) - 1)))))"
  using ftest_small_ndf [OF surface_min_single, of 2 1 "1/20"]
    ftest_small_ndf [OF surface_min_single, of 1 1 "1/20"]
  by (simp add: surface_min_single)

subsection \<open>The loops of grideigval\<close>

















subsection \<open>The covariance matrix and its eigenvalues\<close>





















subsection \<open>The grid search\<close>

text \<open>The two assertions of \<^verbatim>\<open>test_lag\<close> in \<^verbatim>\<open>testing/core_tests.py\<close>.\<close>

lemma lag_xy_test:
  "lag_xy [0, 1, 2] [3, 4, 5] 2 = Inr ([2], [3])"
  "lag_xy [0, 1, 2] [3, 4, 5] (- 2) = Inr ([0], [5])"
  by (simp_all add: lag_xy_def)


















subsection \<open>The default search\<close>

lemma default_lags_maxlag:
  "default_lags n =
     np_unique (map (\<lambda>v. 2 * rint v) (linspace 0 (0.5 * real_of_int (default_maxlag n)) 30))"
  by (simp add: default_lags_def default_maxlag_def Let_def)

lemma py_int_of_nat_div: "py_int (real n / numeral k) = int (n div numeral k)"
proof -
  have "\<lfloor>real n / real (numeral k)\<rfloor> = int (n div numeral k)"
    by (rule floor_divide_of_nat_eq)
  then show ?thesis by (simp add: py_int_def)
qed

lemma default_maxlag_even: "even (default_maxlag n)" and default_maxlag_nonneg: "0 \<le> default_maxlag n"
  by (auto simp: default_maxlag_def Let_def py_int_of_nat_div)

lemma rint_eq_round:
  assumes "v - of_int \<lfloor>v\<rfloor> \<noteq> 1/2"
  shows "rint v = round v"
proof -
  have "round v = \<lfloor>v + 1/2\<rfloor>" by (simp add: round_def)
  also have "\<dots> = (if v - of_int \<lfloor>v\<rfloor> < 1/2 then \<lfloor>v\<rfloor> else \<lfloor>v\<rfloor> + 1)"
    by (auto simp: floor_eq_iff) linarith+
  finally show ?thesis using assms by (auto simp: rint_def Let_def)
qed

lemma no_tie:
  fixes i :: nat and h :: int
  shows "real i * (real_of_int h / 29) - of_int \<lfloor>real i * (real_of_int h / 29)\<rfloor> \<noteq> 1/2"
proof
  define q where "q = \<lfloor>real i * (real_of_int h / 29)\<rfloor>"
  assume "real i * (real_of_int h / 29) - of_int q = 1/2"
  then have "2 * (real i * real_of_int h) = 29 * (2 * real_of_int q + 1)"
    by (simp add: field_simps)
  then have "real_of_int (2 * (int i * h)) = real_of_int (29 * (2 * q + 1))"
    by simp
  then have "2 * (int i * h) = 29 * (2 * q + 1)"
    by (simp only: of_int_eq_iff)
  then show False by presburger
qed

lemma linspace_default:
  "linspace 0 (0.5 * real_of_int M) 30 = map (\<lambda>i. real i * (real_of_int (M div 2) / 29)) [0..<30]"
  if "even M"
proof -
  from that have "real_of_int M = 2 * real_of_int (M div 2)"
    by (metis even_two_times_div_two of_int_mult of_int_numeral)
  then show ?thesis by (simp add: linspace_def)
qed

lemma default_lags_round:
  "default_lags n =
     np_unique (map (\<lambda>i. 2 * round (real i * (real_of_int (default_maxlag n div 2) / 29))) [0..<30])"
proof -
  have "map (\<lambda>v. 2 * rint v) (linspace 0 (0.5 * real_of_int (default_maxlag n)) 30) =
        map (\<lambda>i. 2 * rint (real i * (real_of_int (default_maxlag n div 2) / 29))) [0..<30]"
    unfolding linspace_default [OF default_maxlag_even] map_map o_def ..
  also have "\<dots> = map (\<lambda>i. 2 * round (real i * (real_of_int (default_maxlag n div 2) / 29))) [0..<30]"
    unfolding rint_eq_round [OF no_tie] ..
  finally show ?thesis unfolding default_lags_maxlag by (rule arg_cong)
qed

lemma np_unique_props: "sorted (np_unique xs)" "distinct (np_unique xs)" "set (np_unique xs) = set xs"
  by (simp_all add: np_unique_def sorted_remdups)

lemma default_lags_set:
  "set (default_lags n) =
     (\<lambda>i. 2 * round (real i * (real_of_int (default_maxlag n div 2) / 29))) ` {0..<30}"
  unfolding default_lags_round np_unique_props(3) set_map set_upt ..

lemma default_lags_bounds:
  assumes "l \<in> set (default_lags n)"
  shows "even l" and "0 \<le> l" and "l \<le> default_maxlag n"
proof -
  define h where "h = default_maxlag n div 2"
  have h0: "0 \<le> h" using default_maxlag_nonneg [of n] by (simp add: h_def)
  have M: "default_maxlag n = 2 * h" using default_maxlag_even [of n] by (simp add: h_def)
  from assms obtain i where i: "i < 30" and l: "l = 2 * round (real i * (real_of_int h / 29))"
    unfolding default_lags_set h_def by auto
  show "even l" by (simp add: l)
  have "0 \<le> real i * (real_of_int h / 29)" using h0 by simp
  then have "round (0::real) \<le> round (real i * (real_of_int h / 29))" by (rule round_mono)
  then show "0 \<le> l" by (simp add: l)
  have "real i * (real_of_int h / 29) \<le> real_of_int h"
  proof -
    have "real i * (real_of_int h / 29) = (real i / 29) * real_of_int h" by simp
    also have "\<dots> \<le> 1 * real_of_int h"
      using i h0 by (intro mult_right_mono) simp_all
    finally show ?thesis by simp
  qed
  then have "round (real i * (real_of_int h / 29)) \<le> round (real_of_int h)" by (rule round_mono)
  then show "l \<le> default_maxlag n" by (simp add: l M)
qed

lemma default_lags_ends: "0 \<in> set (default_lags n)" "default_maxlag n \<in> set (default_lags n)"
proof -
  define h where "h = default_maxlag n div 2"
  have M: "default_maxlag n = 2 * h" using default_maxlag_even [of n] by (simp add: h_def)
  have "2 * round (real 0 * (real_of_int h / 29)) = 0" by simp
  then show "0 \<in> set (default_lags n)"
    unfolding default_lags_set h_def [symmetric] by (metis (no_types, lifting) atLeastLessThan_iff image_eqI zero_le zero_less_numeral)
  have "real 29 * (real_of_int h / 29) = real_of_int h" by simp
  then have "2 * round (real 29 * (real_of_int h / 29)) = default_maxlag n" by (simp add: M)
  moreover have "(29::nat) \<in> {0..<30}" by simp
  ultimately show "default_maxlag n \<in> set (default_lags n)"
    unfolding default_lags_set h_def [symmetric] by (metis (no_types, lifting) image_eqI)
qed

lemma default_degs_eq: "default_degs = map (\<lambda>i. - 90 + 3 * real i) [0..<60]"
  by (simp add: default_degs_def np_arange_def o_def del: upt_Suc)

lemma default_window_eq:
  "default_window n =
     \<lparr>nsamps = (if odd (n div 2) then int (n div 2) else int (n div 2) + 1),
      offset = 0, tukey = None\<rparr>"
  by (auto simp: default_window_def Let_def py_int_of_nat_div odd_iff_mod_2_eq_one
        simp flip: even_iff_mod_2_eq_zero)

lemma round_420_29: "round (14 * (30 / 29) :: real) = 14" and round_450_29: "round (15 * (30 / 29) :: real) = 16"
  by (simp_all add: round_def)

lemma default_maxlag_590: "default_maxlag 590 = 60"
  by (simp add: default_maxlag_def py_int_def Let_def)

lemma default_lags_590_no_30: "30 \<notin> set (default_lags 590)"
proof
  assume "30 \<in> set (default_lags 590)"
  then obtain i :: nat where i: "i < 30" and r: "2 * round (real i * (30 / 29)) = (30 :: int)"
    unfolding default_lags_set default_maxlag_590 by auto
  show False
  proof (cases "i \<le> 14")
    case True
    then have "real i * (30 / 29) \<le> 14 * (30 / 29)" by simp
    then have "round (real i * (30 / 29)) \<le> round (14 * (30 / 29) :: real)" by (rule round_mono)
    with r show False by (simp only: round_420_29)
  next
    case False
    then have "15 * (30 / 29) \<le> real i * (30 / 29)" by simp
    then have "round (15 * (30 / 29) :: real) \<le> round (real i * (30 / 29))" by (rule round_mono)
    with r show False by (simp only: round_450_29)
  qed
qed

lemma spec_default_lags_590_has_30: "30 \<in> set (spec_default_lags 590)"
proof -
  have "rint (0.5 * (0 + real 15 * ((real 590 / 10 - 0) / real (30 - 1)))) = 15"
    by (simp add: rint_def Let_def)
  then have eq: "30 = 2 * rint (0.5 * (0 + real 15 * ((real 590 / 10 - 0) / real (30 - 1))))"
    by (simp only:)
  have mem: "(15::nat) \<in> set [0..<30]" by simp
  have "30 \<in> (\<lambda>i. 2 * rint (0.5 * (0 + real i * ((real 590 / 10 - 0) / real (30 - 1))))) ` set [0..<30]"
    using eq mem by (rule image_eqI)
  then show ?thesis
    unfolding spec_default_lags_def np_unique_props(3) linspace_def set_map image_image .
qed

text \<open>
  C7, as the claim states it, fails for the delays: for a trace of 590 samples the values
  \<open>2 * rint (0.5 * k)\<close>, \<open>k\<close> over 30 steps from 0 to \<open>N / 10 = 59\<close>, contain 30; the
  default candidates of the code do not.
\<close>

theorem default_lags_not_spec_counterexample:
  "30 \<in> set (spec_default_lags 590) \<and> 30 \<notin> set (default_lags 590)"
  using spec_default_lags_590_has_30 default_lags_590_no_30 by (rule conjI)

text \<open>
  C7, amended: when the option is omitted, the angle candidates are every 3 degrees over
  \<open>[-90, 90)\<close>; the delay candidates are the 30 values spaced linearly from 0 to
  \<open>maxlag / 2\<close>, each rounded to the nearest integer and doubled, then sorted and
  deduplicated, where \<open>maxlag\<close> is \<open>int(N / 10)\<close> raised by one when it is odd (so they
  are even, ascending without repetition, and run from 0 to \<open>maxlag\<close>); the window has
  \<open>int(N / 2)\<close> samples, one more when that is even, zero offset and no taper.
\<close>

theorem grideigval_defaults:
  "(kw_degs kw = None \<longrightarrow> resolve_degs kw = map (\<lambda>i. - 90 + 3 * real i) [0..<60]) \<and>
   (kw_lags kw = None \<longrightarrow>
      set (resolve_lags x kw) =
        (\<lambda>i. 2 * round (real i * (real_of_int (default_maxlag (length x) div 2) / 29))) ` {0..<30} \<and>
      sorted (resolve_lags x kw) \<and> distinct (resolve_lags x kw) \<and>
      (\<forall>l\<in>set (resolve_lags x kw). even l \<and> 0 \<le> l \<and> l \<le> default_maxlag (length x)) \<and>
      0 \<in> set (resolve_lags x kw) \<and> default_maxlag (length x) \<in> set (resolve_lags x kw)) \<and>
   default_maxlag (length x) =
     (if even (length x div 10) then int (length x div 10) else int (length x div 10) + 1) \<and>
   (kw_window kw = None \<longrightarrow>
      resolve_window x kw =
        \<lparr>nsamps = (if odd (length x div 2) then int (length x div 2)
                   else int (length x div 2) + 1),
         offset = 0, tukey = None\<rparr> \<and>
      odd (nsamps (resolve_window x kw)))"
proof (intro conjI impI)
  assume "kw_degs kw = None"
  then show "resolve_degs kw = map (\<lambda>i. - 90 + 3 * real i) [0..<60]"
    by (simp only: resolve_degs_def default_degs_eq option.case)
next
  show "default_maxlag (length x) =
     (if even (length x div 10) then int (length x div 10) else int (length x div 10) + 1)"
    by (simp add: default_maxlag_def py_int_of_nat_div Let_def flip: even_iff_mod_2_eq_zero)
next
  assume w: "kw_window kw = None"
  then show eq: "resolve_window x kw =
        \<lparr>nsamps = (if odd (length x div 2) then int (length x div 2)
                   else int (length x div 2) + 1),
         offset = 0, tukey = None\<rparr>"
    by (simp only: resolve_window_def default_window_eq option.case)
  show "odd (nsamps (resolve_window x kw))"
    unfolding eq by simp
next
  assume "kw_lags kw = None"
  then have eq: "resolve_lags x kw = default_lags (length x)"
    by (simp only: resolve_lags_def option.case)
  show "set (resolve_lags x kw) =
        (\<lambda>i. 2 * round (real i * (real_of_int (default_maxlag (length x) div 2) / 29))) ` {0..<30}"
    unfolding eq by (rule default_lags_set)
  show "sorted (resolve_lags x kw)" "distinct (resolve_lags x kw)"
    unfolding eq default_lags_round by (rule np_unique_props)+
  show "\<forall>l\<in>set (resolve_lags x kw). even l \<and> 0 \<le> l \<and> l \<le> default_maxlag (length x)"
    unfolding eq using default_lags_bounds by blast
  show "0 \<in> set (resolve_lags x kw)" "default_maxlag (length x) \<in> set (resolve_lags x kw)"
    unfolding eq by (rule default_lags_ends)+
qed

theorem grideigval_defaults_witness:
  "resolve_degs \<lparr>kw_lags = None, kw_degs = None, kw_window = None, kw_rcvcorr = None,
                 kw_srccorr = None\<rparr> = map (\<lambda>i. - 90 + 3 * real i) [0..<60] \<and>
   0 \<in> set (resolve_lags (replicate 30 0)
        \<lparr>kw_lags = None, kw_degs = None, kw_window = None, kw_rcvcorr = None,
         kw_srccorr = None\<rparr>) \<and>
   4 \<in> set (resolve_lags (replicate 30 0)
        \<lparr>kw_lags = None, kw_degs = None, kw_window = None, kw_rcvcorr = None,
         kw_srccorr = None\<rparr>) \<and>
   resolve_window (replicate 30 0)
        \<lparr>kw_lags = None, kw_degs = None, kw_window = None, kw_rcvcorr = None,
         kw_srccorr = None\<rparr> = \<lparr>nsamps = 15, offset = 0, tukey = None\<rparr>"
proof -
  define kw where "kw = \<lparr>kw_lags = None, kw_degs = None, kw_window = None,
      kw_rcvcorr = None, kw_srccorr = None\<rparr>"
  define x :: trace where "x = replicate 30 0"
  have h: "kw_degs kw = None" "kw_lags kw = None" "kw_window kw = None"
    by (simp_all add: kw_def)
  have n: "length x = 30" by (simp add: x_def)
  from grideigval_defaults [of kw x] h
  have 1: "resolve_degs kw = map (\<lambda>i. - 90 + 3 * real i) [0..<60]"
    and 2: "0 \<in> set (resolve_lags x kw)"
    and 3: "default_maxlag (length x) \<in> set (resolve_lags x kw)"
    and 4: "default_maxlag (length x) =
     (if even (length x div 10) then int (length x div 10) else int (length x div 10) + 1)"
    and 5: "resolve_window x kw =
        \<lparr>nsamps = (if odd (length x div 2) then int (length x div 2)
                   else int (length x div 2) + 1),
         offset = 0, tukey = None\<rparr>"
    by blast+
  from 4 have m: "default_maxlag (length x) = 4" by (simp add: n)
  from 5 have w: "resolve_window x kw = \<lparr>nsamps = 15, offset = 0, tukey = None\<rparr>"
    by (simp add: n)
  from 3 have "4 \<in> set (resolve_lags x kw)" by (simp only: m)
  with 1 2 w show ?thesis unfolding kw_def x_def by blast
qed

subsection \<open>The attributes of a measurement\<close>

subsection \<open>Rectangular arrays\<close>

lemma length_concat_rect:
  assumes "\<forall>row\<in>set a. length row = m"
  shows "length (concat a) = length a * m"
  using assms by (induction a) simp_all

lemma concat_nth_rect:
  assumes "\<forall>row\<in>set a. length row = m" "k < length a * m"
  shows "concat a ! k = a ! (k div m) ! (k mod m)"
  using assms
proof (induction a arbitrary: k)
  case Nil
  then show ?case by simp
next
  case (Cons r a)
  have m: "0 < m" using Cons.prems(2) by (cases m) simp_all
  have lr: "length r = m" using Cons.prems(1) by simp
  show ?case
  proof (cases "k < m")
    case True
    then show ?thesis by (simp add: nth_append lr)
  next
    case False
    then have km: "m \<le> k" by simp
    then have "k - m < length a * m" using Cons.prems(2) by simp
    with Cons.IH [of "k - m"] Cons.prems(1)
    have "concat a ! (k - m) = a ! ((k - m) div m) ! ((k - m) mod m)" by simp
    moreover have "(k - m) div m = k div m - 1" using km m by (simp add: le_div_geq)
    moreover have "(k - m) mod m = k mod m" using km by (simp add: le_mod_geq)
    moreover have "0 < k div m" using km m by (simp add: div_greater_zero_iff)
    ultimately show ?thesis using False by (simp add: nth_append lr nth_Cons')
  qed
qed

lemma concat_map2_map2:
  assumes "length a = length b" "\<forall>row\<in>set a. length row = m" "\<forall>row\<in>set b. length row = m"
  shows "concat (map2 (map2 f) a b) = map2 f (concat a) (concat b)"
  using assms by (induction a b rule: list_induct2) simp_all

lemma cell_index:
  assumes "j < n" "i < (m::nat)"
  shows "j * m + i < n * m" and "(j * m + i) div m = j" and "(j * m + i) mod m = i"
proof -
  have "j * m + i < j * m + m" using assms(2) by simp
  also have "\<dots> = Suc j * m" by simp
  also have "\<dots> \<le> n * m" using assms(1) by (intro mult_le_mono1) simp
  finally show "j * m + i < n * m" .
  show "(j * m + i) div m = j" using assms(2) by simp
  show "(j * m + i) mod m = i" using assms(2) by simp
qed

lemma flat_index:
  assumes "k < n * (m::nat)"
  shows "k div m < n" and "k mod m < m"
proof -
  from assms have m: "0 < m" by (cases m) simp_all
  show "k div m < n" using assms m by (simp add: less_mult_imp_div_less)
  show "k mod m < m" using m by simp
qed

subsection \<open>The scan for the maximum, on finite values\<close>

lemma argmax_scan_finite:
  assumes "length ys = k" "best < k" "ys ! best = bv" "\<forall>i<k. ys ! i \<le> bv"
    "\<forall>i<best. ys ! i < bv"
  shows "argmax_scan best (Fin bv) k (map Fin vs) < k + length vs \<and>
         (\<forall>i<k + length vs. (ys @ vs) ! i \<le> (ys @ vs) ! argmax_scan best (Fin bv) k (map Fin vs)) \<and>
         (\<forall>i<argmax_scan best (Fin bv) k (map Fin vs).
             (ys @ vs) ! i < (ys @ vs) ! argmax_scan best (Fin bv) k (map Fin vs))"
  using assms
proof (induction vs arbitrary: ys k best bv)
  case Nil
  then show ?case by simp
next
  case (Cons v vs)
  have app: "ys @ v # vs = (ys @ [v]) @ vs" by simp
  show ?case
  proof (cases "bv < v")
    case True
    have "argmax_scan k (Fin v) (Suc k) (map Fin vs) < Suc k + length vs \<and>
         (\<forall>i<Suc k + length vs. ((ys @ [v]) @ vs) ! i \<le> ((ys @ [v]) @ vs) ! argmax_scan k (Fin v) (Suc k) (map Fin vs)) \<and>
         (\<forall>i<argmax_scan k (Fin v) (Suc k) (map Fin vs).
             ((ys @ [v]) @ vs) ! i < ((ys @ [v]) @ vs) ! argmax_scan k (Fin v) (Suc k) (map Fin vs))"
    proof (rule Cons.IH)
      show "length (ys @ [v]) = Suc k" using Cons.prems(1) by simp
      show "k < Suc k" by simp
      show "(ys @ [v]) ! k = v" using Cons.prems(1) by (simp add: nth_append)
      show "\<forall>i<Suc k. (ys @ [v]) ! i \<le> v"
        using Cons.prems(1,4) True by (auto simp: nth_append less_Suc_eq intro: order.strict_implies_order order.trans)
      show "\<forall>i<k. (ys @ [v]) ! i < v"
        using Cons.prems(1,4) True by (auto simp: nth_append)
    qed
    with True show ?thesis unfolding app by simp
  next
    case False
    have "argmax_scan best (Fin bv) (Suc k) (map Fin vs) < Suc k + length vs \<and>
         (\<forall>i<Suc k + length vs. ((ys @ [v]) @ vs) ! i \<le> ((ys @ [v]) @ vs) ! argmax_scan best (Fin bv) (Suc k) (map Fin vs)) \<and>
         (\<forall>i<argmax_scan best (Fin bv) (Suc k) (map Fin vs).
             ((ys @ [v]) @ vs) ! i < ((ys @ [v]) @ vs) ! argmax_scan best (Fin bv) (Suc k) (map Fin vs))"
    proof (rule Cons.IH)
      show "length (ys @ [v]) = Suc k" using Cons.prems(1) by simp
      show "best < Suc k" using Cons.prems(2) by simp
      show "(ys @ [v]) ! best = bv" using Cons.prems(1,2,3) by (simp add: nth_append)
      show "\<forall>i<Suc k. (ys @ [v]) ! i \<le> bv"
        using Cons.prems(1,4) False by (auto simp: nth_append less_Suc_eq)
      show "\<forall>i<best. (ys @ [v]) ! i < bv"
        using Cons.prems(1,2,5) by (auto simp: nth_append)
    qed
    with False show ?thesis unfolding app by simp
  qed
qed

lemma argmax_finite:
  assumes "qs \<noteq> []"
  shows "\<exists>k. argmax (map Fin qs) = Inr k \<and> k < length qs \<and>
           (\<forall>i<length qs. qs ! i \<le> qs ! k) \<and> (\<forall>i<k. qs ! i < qs ! k)"
proof -
  from assms obtain q qs' where qs: "qs = q # qs'" by (cases qs) auto
  have "argmax_scan 0 (Fin q) 1 (map Fin qs') < 1 + length qs' \<and>
         (\<forall>i<1 + length qs'. ([q] @ qs') ! i \<le> ([q] @ qs') ! argmax_scan 0 (Fin q) 1 (map Fin qs')) \<and>
         (\<forall>i<argmax_scan 0 (Fin q) 1 (map Fin qs').
             ([q] @ qs') ! i < ([q] @ qs') ! argmax_scan 0 (Fin q) 1 (map Fin qs'))"
    by (rule argmax_scan_finite) simp_all
  then show ?thesis by (simp add: qs argmax_def)
qed

subsection \<open>The optimum and the second signal-to-noise estimate\<close>

lemma map2_np_div_finite:
  assumes "\<forall>v\<in>set b. v \<noteq> 0" and "\<And>y. y \<noteq> 0 \<Longrightarrow> g y \<noteq> 0"
  shows "map2 (\<lambda>x y. np_div (f x y) (g y)) a b = map Fin (map2 (\<lambda>x y. f x y / g y) a b)"
proof -
  have "\<And>x y. (x, y) \<in> set (zip a b) \<Longrightarrow> g y \<noteq> 0"
    using assms by (auto dest: set_zip_rightD)
  then show ?thesis by (auto simp: np_div_def)
qed

lemma concat_positive:
  assumes "\<forall>row\<in>set s. \<forall>v\<in>set row. 0 < (v::real)"
  shows "\<forall>v\<in>set (concat s). 0 < v"
  using assms by auto

lemma ncols_ratio:
  assumes "lam1 \<noteq> []" "length lam1 = length lam2"
    "\<forall>row\<in>set lam1. length row = m" "\<forall>row\<in>set lam2. length row = m"
  shows "ncols (ratio lam1 lam2) = m"
proof -
  from assms(1,2) obtain r1 l1 r2 l2 where "lam1 = r1 # l1" "lam2 = r2 # l2"
    by (cases lam1; cases lam2) auto
  with assms(3,4) show ?thesis by (simp add: ncols_def ratio_def)
qed

lemma ratio_flat:
  assumes "length lam1 = length lam2"
    "\<forall>row\<in>set lam1. length row = m" "\<forall>row\<in>set lam2. length row = m"
    "\<forall>row\<in>set lam2. \<forall>v\<in>set row. 0 < v"
  shows "concat (ratio lam1 lam2) = map Fin (map2 (\<lambda>x y. x / y) (concat lam1) (concat lam2))"
proof -
  have nz: "\<forall>v\<in>set (concat lam2). v \<noteq> 0"
    using concat_positive [OF assms(4)] by auto
  have "concat (ratio lam1 lam2) = map2 np_div (concat lam1) (concat lam2)"
    unfolding ratio_def using assms(1-3) by (rule concat_map2_map2)
  also have "\<dots> = map Fin (map2 (\<lambda>x y. x / y) (concat lam1) (concat lam2))"
    using map2_np_div_finite [OF nz, of "\<lambda>y. y" "\<lambda>x y. x"] by simp
  finally show ?thesis .
qed

lemma max_idx_positive:
  assumes "lam1 \<noteq> []" "length lam1 = length lam2"
    "\<forall>row\<in>set lam1. length row = m" "\<forall>row\<in>set lam2. length row = m" "0 < m"
    "\<forall>row\<in>set lam2. \<forall>v\<in>set row. 0 < v"
  shows "\<exists>k. max_idx (ratio lam1 lam2) = Inr (k div m, k mod m) \<and> k < length lam1 * m \<and>
           (\<forall>i<length lam1 * m.
               concat lam1 ! i / concat lam2 ! i \<le> concat lam1 ! k / concat lam2 ! k) \<and>
           (\<forall>i<k. concat lam1 ! i / concat lam2 ! i < concat lam1 ! k / concat lam2 ! k)"
proof -
  define a where "a = concat lam1"
  define b where "b = concat lam2"
  define q where "q = map2 (\<lambda>x y. x / y) a b"
  have la: "length a = length lam1 * m"
    unfolding a_def using assms(3) by (rule length_concat_rect)
  have lb: "length b = length lam1 * m"
    unfolding b_def assms(2) using assms(4) by (rule length_concat_rect)
  have lq: "length q = length lam1 * m" by (simp add: q_def la lb)
  have "0 < length lam1" using assms(1) by simp
  with assms(5) have "0 < length lam1 * m" by simp
  then have "q \<noteq> []" using lq by auto
  from argmax_finite [OF this] obtain k where
    k: "argmax (map Fin q) = Inr k" "k < length q"
    and mx: "\<forall>i<length q. q ! i \<le> q ! k" and fst: "\<forall>i<k. q ! i < q ! k"
    by blast
  have qn: "q ! i = a ! i / b ! i" if "i < length lam1 * m" for i
    using that by (simp add: q_def la lb)
  have flat: "concat (ratio lam1 lam2) = map Fin q"
    unfolding q_def a_def b_def using assms(2,3,4,6) by (rule ratio_flat)
  have "max_idx (ratio lam1 lam2) = Inr (k div m, k mod m)"
    by (simp add: max_idx_def flat k(1) bind_def ncols_ratio [OF assms(1-4)])
  moreover have "k < length lam1 * m" using k(2) lq by simp
  moreover have "\<forall>i<length lam1 * m. a ! i / b ! i \<le> a ! k / b ! k"
    using mx k(2) lq qn by auto
  moreover have "\<forall>i<k. a ! i / b ! i < a ! k / b ! k"
    using fst k(2) lq qn by auto
  ultimately show ?thesis unfolding a_def b_def by blast
qed

lemma fold_fmax_Fin: "fold fmax (map Fin vs) (Fin v) = Fin (fold max vs v)"
proof (induction vs arbitrary: v)
  case Nil
  then show ?case by simp
next
  case (Cons x vs)
  have "fmax (Fin x) (Fin v) = Fin (max x v)" by (simp add: fmax_def max_def)
  then show ?case by (simp add: Cons.IH)
qed

lemma np_max_finite:
  assumes "k < length ss" "\<forall>i<length ss. ss ! i \<le> ss ! k"
  shows "np_max (map Fin ss) = Inr (Fin (ss ! k))"
proof -
  from assms(1) obtain s ss' where ss: "ss = s # ss'" by (cases ss) auto
  have "Max (set (s # ss')) = ss ! k"
  proof (rule Max_eqI)
    show "finite (set (s # ss'))" by simp
    show "y \<le> ss ! k" if "y \<in> set (s # ss')" for y
      using that assms(2) unfolding ss [symmetric] by (auto simp: in_set_conv_nth)
    show "ss ! k \<in> set (s # ss')" using assms(1) unfolding ss [symmetric] by simp
  qed
  then have "fold max ss' s = ss ! k" by (simp only: Max.set_eq_fold)
  then show ?thesis by (simp add: np_max_def ss fold_fmax_Fin)
qed

lemma snr_cell_mono:
  fixes x y x' y' :: real
  assumes "0 < y" "0 < y'" "x / y \<le> x' / y'"
  shows "(x - y) / (2 * y) \<le> (x' - y') / (2 * y')"
proof -
  have 1: "(x - y) / (2 * y) = (x / y - 1) / 2"
    using assms(1) by (simp add: diff_divide_distrib)
  have 2: "(x' - y') / (2 * y') = (x' / y' - 1) / 2"
    using assms(2) by (simp add: diff_divide_distrib)
  from assms(3) have "(x / y - 1) / 2 \<le> (x' / y' - 1) / 2"
    by (intro divide_right_mono diff_right_mono) simp_all
  then show ?thesis by (simp only: 1 2)
qed




lemma snr_at_maximizer:
  assumes "length lam1 = length lam2"
    "\<forall>row\<in>set lam1. length row = m" "\<forall>row\<in>set lam2. length row = m"
    "\<forall>row\<in>set lam2. \<forall>v\<in>set row. 0 < v"
    and ji: "j < length lam1" "i < m"
    and mx: "\<forall>j'<length lam1. \<forall>i'<m.
               lam1 ! j' ! i' / lam2 ! j' ! i' \<le> lam1 ! j ! i / lam2 ! j ! i"
  shows "snr lam1 lam2 = Inr (Fin ((lam1 ! j ! i - lam2 ! j ! i) / (2 * lam2 ! j ! i)))"
proof -
  define a where "a = concat lam1"
  define b where "b = concat lam2"
  define ss where "ss = map2 (\<lambda>x y. (x - y) / (2 * y)) a b"
  define k where "k = j * m + i"
  have k: "k < length lam1 * m" and kd: "k div m = j" and km: "k mod m = i"
    unfolding k_def using ji by (rule cell_index)+
  have la: "length a = length lam1 * m"
    unfolding a_def using assms(2) by (rule length_concat_rect)
  have lb: "length b = length lam1 * m"
    unfolding b_def assms(1) using assms(3) by (rule length_concat_rect)
  have ls: "length ss = length lam1 * m" by (simp add: ss_def la lb)
  have an: "a ! n = lam1 ! (n div m) ! (n mod m)" if "n < length lam1 * m" for n
    unfolding a_def using assms(2) that by (rule concat_nth_rect)
  have bn: "b ! n = lam2 ! (n div m) ! (n mod m)" if "n < length lam1 * m" for n
    unfolding b_def using assms(3) that [unfolded assms(1)] by (rule concat_nth_rect)
  have bpos: "0 < b ! n" if "n < length lam1 * m" for n
    using concat_positive [OF assms(4)] that lb unfolding b_def by (metis nth_mem)
  have sn: "ss ! n = (a ! n - b ! n) / (2 * b ! n)" if "n < length lam1 * m" for n
    using that by (simp add: ss_def la lb)
  have nz: "\<forall>v\<in>set b. v \<noteq> 0"
    using concat_positive [OF assms(4)] unfolding b_def by auto
  have "concat (map2 (map2 (\<lambda>l1 l2. np_div (l1 - l2) (2 * l2))) lam1 lam2) =
        map2 (\<lambda>l1 l2. np_div (l1 - l2) (2 * l2)) a b"
    unfolding a_def b_def using assms(1,2,3) by (rule concat_map2_map2)
  also have "\<dots> = map Fin ss"
    unfolding ss_def by (rule map2_np_div_finite [OF nz]) simp
  finally have flat: "snr lam1 lam2 = np_max (map Fin ss)" by (simp only: snr_def)
  have "\<forall>n<length ss. ss ! n \<le> ss ! k"
  proof (intro allI impI)
    fix n assume "n < length ss"
    then have n: "n < length lam1 * m" by (simp only: ls)
    from mx flat_index [OF n]
    have "lam1 ! (n div m) ! (n mod m) / lam2 ! (n div m) ! (n mod m) \<le>
          lam1 ! j ! i / lam2 ! j ! i"
      by blast
    then have "a ! n / b ! n \<le> a ! k / b ! k"
      by (simp only: an [OF n] bn [OF n] an [OF k] bn [OF k] kd km)
    with bpos [OF n] bpos [OF k] have "(a ! n - b ! n) / (2 * b ! n) \<le> (a ! k - b ! k) / (2 * b ! k)"
      by (rule snr_cell_mono)
    then show "ss ! n \<le> ss ! k" by (simp only: sn [OF n] sn [OF k])
  qed
  moreover have "k < length ss" using k by (simp only: ls)
  ultimately have "np_max (map Fin ss) = Inr (Fin (ss ! k))" by (rule np_max_finite [rotated])
  then show ?thesis
    by (simp only: flat sn [OF k] an [OF k] bn [OF k] kd km)
qed

lemma max_idx_maximizer:
  assumes "lam1 \<noteq> []" "length lam1 = length lam2"
    "\<forall>row\<in>set lam1. length row = m" "\<forall>row\<in>set lam2. length row = m" "0 < m"
    "\<forall>row\<in>set lam2. \<forall>v\<in>set row. 0 < v"
  shows "\<exists>j i. max_idx (ratio lam1 lam2) = Inr (j, i) \<and> j < length lam1 \<and> i < m \<and>
           (\<forall>j'<length lam1. \<forall>i'<m.
               lam1 ! j' ! i' / lam2 ! j' ! i' \<le> lam1 ! j ! i / lam2 ! j ! i)"
proof -
  from max_idx_positive [OF assms] obtain k where
    mi: "max_idx (ratio lam1 lam2) = Inr (k div m, k mod m)"
    and k: "k < length lam1 * m"
    and mx: "\<forall>n<length lam1 * m.
               concat lam1 ! n / concat lam2 ! n \<le> concat lam1 ! k / concat lam2 ! k"
    by blast
  have an: "concat lam1 ! n = lam1 ! (n div m) ! (n mod m)" if "n < length lam1 * m" for n
    using assms(3) that by (rule concat_nth_rect)
  have bn: "concat lam2 ! n = lam2 ! (n div m) ! (n mod m)" if "n < length lam1 * m" for n
    using assms(4) that [unfolded assms(2)] by (rule concat_nth_rect)
  have "lam1 ! j' ! i' / lam2 ! j' ! i' \<le>
        lam1 ! (k div m) ! (k mod m) / lam2 ! (k div m) ! (k mod m)"
    if "j' < length lam1" "i' < m" for j' i'
  proof -
    note c = cell_index [OF that]
    from mx c(1) have "concat lam1 ! (j' * m + i') / concat lam2 ! (j' * m + i') \<le>
          concat lam1 ! k / concat lam2 ! k"
      by blast
    then show ?thesis by (simp only: an [OF c(1)] bn [OF c(1)] an [OF k] bn [OF k] c(2,3))
  qed
  with mi flat_index [OF k] show ?thesis by blast
qed

text \<open>
  C6: for surfaces of one non-empty rectangular shape whose \<open>lam2\<close> is positive in every
  cell, the second signal-to-noise estimate, the maximum of \<open>(lam1 - lam2) / (2 lam2)\<close>
  over the surface, is the value of that expression at the cell that the
  optimum-location step selects, and at every cell of the grid that maximizes
  \<open>lam1 / lam2\<close>.
\<close>

theorem snr_at_optimum:
  assumes "lam1 \<noteq> []" "length lam1 = length lam2"
    "\<forall>row\<in>set lam1. length row = m" "\<forall>row\<in>set lam2. length row = m" "0 < m"
    "\<forall>row\<in>set lam2. \<forall>v\<in>set row. 0 < v"
  shows "(\<exists>j i. max_idx (ratio lam1 lam2) = Inr (j, i) \<and> j < length lam1 \<and> i < m \<and>
            snr lam1 lam2 = Inr (Fin ((lam1 ! j ! i - lam2 ! j ! i) / (2 * lam2 ! j ! i)))) \<and>
         (\<forall>j<length lam1. \<forall>i<m.
            (\<forall>j'<length lam1. \<forall>i'<m.
               lam1 ! j' ! i' / lam2 ! j' ! i' \<le> lam1 ! j ! i / lam2 ! j ! i) \<longrightarrow>
            snr lam1 lam2 = Inr (Fin ((lam1 ! j ! i - lam2 ! j ! i) / (2 * lam2 ! j ! i))))"
proof (intro conjI allI impI)
  from max_idx_maximizer [OF assms] obtain j i where
    mi: "max_idx (ratio lam1 lam2) = Inr (j, i)" and ji: "j < length lam1" "i < m"
    and mx: "\<forall>j'<length lam1. \<forall>i'<m.
               lam1 ! j' ! i' / lam2 ! j' ! i' \<le> lam1 ! j ! i / lam2 ! j ! i"
    by blast
  from snr_at_maximizer [OF assms(2,3,4,6) ji mx] mi ji
  show "\<exists>j i. max_idx (ratio lam1 lam2) = Inr (j, i) \<and> j < length lam1 \<and> i < m \<and>
            snr lam1 lam2 = Inr (Fin ((lam1 ! j ! i - lam2 ! j ! i) / (2 * lam2 ! j ! i)))"
    by blast
next
  fix j i
  assume "j < length lam1" "i < m"
    and "\<forall>j'<length lam1. \<forall>i'<m.
               lam1 ! j' ! i' / lam2 ! j' ! i' \<le> lam1 ! j ! i / lam2 ! j ! i"
  with assms(2,3,4,6)
  show "snr lam1 lam2 = Inr (Fin ((lam1 ! j ! i - lam2 ! j ! i) / (2 * lam2 ! j ! i)))"
    by (rule snr_at_maximizer)
qed

theorem snr_at_optimum_witness:
  "max_idx (ratio [[1, 2], [5, 5]] [[1, 1], [1, 1]]) = Inr (1, 0) \<and>
   snr [[1, 2], [5, 5]] [[1, 1], [1, 1]] = Inr (Fin ((5 - 1) / (2 * 1)))"
proof -
  have e: "max_idx (ratio [[1, 2], [5, 5]] [[1, 1], [1, 1]]) = Inr (1, 0)"
    by (simp add: ratio_def np_div_def max_idx_def argmax_def ncols_def bind_def)
  from snr_at_optimum [of "[[1, 2], [5, 5]]" "[[1, 1], [1, 1]]" 2]
  obtain j i where "max_idx (ratio [[1, 2], [5, 5]] [[1, 1], [1, 1]]) = Inr (j, i)"
    and "snr [[1, 2], [5, 5]] [[1, 1], [1, 1]] =
           Inr (Fin (([[1, 2], [5, 5]] ! j ! i - [[1, 1], [1, 1]] ! j ! i) /
                     (2 * [[1, 1], [1, 1]] ! j ! i)))"
    by auto
  with e show ?thesis by simp
qed

subsection \<open>The self-similarity diagnostic\<close>













subsection \<open>The degrees of freedom\<close>

lemma ndf_weights_nth: "k < n \<Longrightarrow> ndf_weights n ! k = endpoint_weight n k"
  by (auto simp: ndf_weights_def endpoint_weight_def nth_list_update)

lemma length_ndf_weights: "length (ndf_weights n) = n"
  by (simp add: ndf_weights_def)

lemma sum_list_map2_nth:
  fixes f :: "'a \<Rightarrow> 'b \<Rightarrow> real"
  assumes "length a = n" "length b = n"
  shows "sum_list (map2 f a b) = (\<Sum>k<n. f (a ! k) (b ! k))"
proof -
  have "sum_list (map2 f a b) = (\<Sum>k = 0..<length (map2 f a b). map2 f a b ! k)"
    by (rule sum_list_sum_nth)
  also have "\<dots> = (\<Sum>k = 0..<n. f (a ! k) (b ! k))"
    using assms by (intro sum.cong) simp_all
  finally show ?thesis by (simp add: atLeast0LessThan)
qed

lemma ndf_value:
  assumes "y \<noteq> []"
  shows "bind (np_fft y) (\<lambda>Y.
           let amp = map cmod Y;
               a = ndf_weights (length Y);
               E2 = sum_list (map2 (\<lambda>a v. a * v\<^sup>2) a amp);
               E4 = sum_list (map2 (\<lambda>a v. (4 * a\<^sup>2 / 3) * v ^ 4) a amp)
           in Inr (fmul (Fin 2) (fsub (np_div (2 * E2\<^sup>2) E4) (Fin 1)))) =
         Inr (fmul (Fin 2) (fsub (np_div (2 * (spectrum_E2 y)\<^sup>2) (spectrum_E4 y)) (Fin 1)))"
proof -
  define Y where "Y = map (dft y) [0..<length y]"
  have lY: "length Y = length y" by (simp add: Y_def)
  have Yk: "Y ! k = dft y k" if "k < length y" for k using that by (simp add: Y_def)
  have E2: "sum_list (map2 (\<lambda>a v. a * v\<^sup>2) (ndf_weights (length Y)) (map cmod Y)) = spectrum_E2 y"
    unfolding spectrum_E2_def
    by (subst sum_list_map2_nth [where n = "length y"])
       (auto simp: length_ndf_weights lY ndf_weights_nth Yk intro!: sum.cong)
  have E4: "sum_list (map2 (\<lambda>a v. (4 * a\<^sup>2 / 3) * v ^ 4) (ndf_weights (length Y)) (map cmod Y)) =
            spectrum_E4 y"
    unfolding spectrum_E4_def
    by (subst sum_list_map2_nth [where n = "length y"])
       (auto simp: length_ndf_weights lY ndf_weights_nth Yk intro!: sum.cong)
  have "np_fft y = Inr Y" using assms by (simp add: np_fft_def Y_def)
  then show ?thesis by (simp only: bind_def sum.case Let_def E2 E4)
qed

text \<open>
  C8: on the sequence \<open>y'\<close> that is left after the optional detrending and the optional
  chopping to the window (not empty), the estimator returns \<open>2 * (2 * E2\<^sup>2 / E4 - 1)\<close>,
  where \<open>E2\<close> is the sum over the bins of the discrete Fourier transform of
  \<open>a * amp\<^sup>2\<close> and \<open>E4\<close> the sum of \<open>(4 a\<^sup>2 / 3) * amp\<^sup>4\<close>, \<open>amp\<close> the modulus of the bin
  and \<open>a\<close> one half for the first and the last bin, one for the others; the division is
  numpy's, so the result is that finite number whenever \<open>E4\<close> is not zero.
\<close>

theorem ndf_formula:
  assumes "(case win of
              None \<Rightarrow> Inr (if detrend then signal_detrend y else y)
            | Some w \<Rightarrow> core_chop1 c (if detrend then signal_detrend y else y) w) = Inr y'"
    and "y' \<noteq> []"
  shows "ndf c signal_detrend y win detrend =
           Inr (fmul (Fin 2)
                  (fsub (np_div (2 * (spectrum_E2 y')\<^sup>2) (spectrum_E4 y')) (Fin 1))) \<and>
         (spectrum_E4 y' \<noteq> 0 \<longrightarrow>
            ndf c signal_detrend y win detrend =
              Inr (Fin (2 * (2 * (spectrum_E2 y')\<^sup>2 / spectrum_E4 y' - 1))))"
proof -
  have "ndf c signal_detrend y win detrend =
          bind (Inr y') (\<lambda>y. bind (np_fft y) (\<lambda>Y.
           let amp = map cmod Y;
               a = ndf_weights (length Y);
               E2 = sum_list (map2 (\<lambda>a v. a * v\<^sup>2) a amp);
               E4 = sum_list (map2 (\<lambda>a v. (4 * a\<^sup>2 / 3) * v ^ 4) a amp)
           in Inr (fmul (Fin 2) (fsub (np_div (2 * E2\<^sup>2) E4) (Fin 1)))))"
    unfolding ndf_def Let_def assms(1) ..
  also have "\<dots> = Inr (fmul (Fin 2)
                  (fsub (np_div (2 * (spectrum_E2 y')\<^sup>2) (spectrum_E4 y')) (Fin 1)))"
    using ndf_value [OF assms(2)] by (simp add: bind_def)
  finally have v: "ndf c signal_detrend y win detrend =
           Inr (fmul (Fin 2)
                  (fsub (np_div (2 * (spectrum_E2 y')\<^sup>2) (spectrum_E4 y')) (Fin 1)))" .
  moreover have "fmul (Fin 2) (fsub (np_div (2 * (spectrum_E2 y')\<^sup>2) (spectrum_E4 y')) (Fin 1)) =
      Fin (2 * (2 * (spectrum_E2 y')\<^sup>2 / spectrum_E4 y' - 1))" if "spectrum_E4 y' \<noteq> 0"
    using that by (simp add: np_div_def fsub_def)
  ultimately show ?thesis by simp
qed

lemma dft_example: "dft [1, 0] 0 = 1" "dft [1, 0] (Suc 0) = 1"
  by (simp_all add: dft_def lessThan_Suc)

lemma spectrum_example: "spectrum_E2 [1, 0] = 1" "spectrum_E4 [1, 0] = 2 / 3"
  by (simp_all add: spectrum_E2_def spectrum_E4_def lessThan_Suc numeral_2_eq_2 dft_example
        endpoint_weight_def power2_eq_square)

theorem ndf_formula_witness:
  "ndf spec_core id [1, 0] None False = Inr (Fin 4)"
proof -
  have 1: "(case None of
              None \<Rightarrow> Inr (if False then id [1, 0] else [1, 0])
            | Some w \<Rightarrow> core_chop1 spec_core (if False then id [1, 0] else [1, 0]) w) =
           (Inr [1, 0] :: error + trace)"
    by simp
  have 2: "[1, 0 :: real] \<noteq> []" by simp
  from ndf_formula [where win = None and detrend = False and signal_detrend = id
      and y = "[1, 0]" and c = spec_core and y' = "[1, 0]", OF 1 2]
  show ?thesis by (simp add: spectrum_example np_div_def fsub_def)
qed

subsection \<open>The trace pair of the caller\<close>






end
